theory Spec2Isabelle
  imports Main
begin

section \<open>JavaScript values used by the bot\<close>

text \<open>
  An exception is a value: a call that may throw returns \<open>error + 'a\<close>, with \<open>Inl\<close> for
  the thrown error, and a \<open>try\<close>/\<open>catch\<close> is a case distinction on that result.
\<close>

datatype error = Error string

subsection \<open>Strings\<close>

text \<open>
  The strings that keyword extraction works on are path names of parsed URLs. The URL
  class percent-encodes every character outside ASCII, so a path name is an ASCII string
  and \<open>toLowerCase\<close> acts on the letters \<open>A\<close> to \<open>Z\<close> only.
\<close>

definition isUpper :: "char \<Rightarrow> bool" where
  "isUpper c \<longleftrightarrow> 65 \<le> (of_char c :: nat) \<and> (of_char c :: nat) \<le> 90"

definition isDigit :: "char \<Rightarrow> bool" where
  "isDigit c \<longleftrightarrow> 48 \<le> (of_char c :: nat) \<and> (of_char c :: nat) \<le> 57"

definition toLowerChar :: "char \<Rightarrow> char" where
  "toLowerChar c = (if isUpper c then char_of ((of_char c :: nat) + 32) else c)"

definition toLowerCase :: "string \<Rightarrow> string" where
  "toLowerCase s = map toLowerChar s"

text \<open>\<open>s.split(d)\<close> for a one-character separator: empty pieces are kept.\<close>

fun split_str :: "char \<Rightarrow> string \<Rightarrow> string list" where
  "split_str d [] = [[]]"
| "split_str d (c # cs) =
     (let ws = split_str d cs
      in if c = d then [] # ws else (c # hd ws) # tl ws)"

text \<open>\<open>s.replace(/-/g, '')\<close>: every hyphen is removed.\<close>

definition removeHyphens :: "string \<Rightarrow> string" where
  "removeHyphens s = filter (\<lambda>c. c \<noteq> CHR ''-'') s"

text \<open>\<open>/^\d+$/\<close>: one or more characters, all of them decimal digits.\<close>

definition allDigits :: "string \<Rightarrow> bool" where
  "allDigits s \<longleftrightarrow> s \<noteq> [] \<and> list_all isDigit s"

subsection \<open>Parsed URLs\<close>

text \<open>
  \<open>new URL(s)\<close> is the platform's URL parser, which is not part of the repository: the
  functions below take it as the parameter \<open>newURL\<close>. It throws on a string that is not
  a URL; of the parsed URL the bot reads the host name and the path name.
\<close>

record url =
  hostname :: string
  pathname :: string

type_synonym url_parser = "string \<Rightarrow> error + url"

text \<open>
  A stand-in for the platform's parser on the plain form \<open>https://host/path\<close> (no user,
  port, query or fragment), where the host name and the path name are the two parts of
  the string as they are written. It instantiates \<open>newURL\<close> in the examples.
\<close>

definition plainHttpsURL :: url_parser where
  "plainHttpsURL s =
     (let rest = drop 8 s;
          host = takeWhile (\<lambda>c. c \<noteq> CHR ''/'') rest;
          path = dropWhile (\<lambda>c. c \<noteq> CHR ''/'') rest
      in if take 8 s = ''https://'' \<and> host \<noteq> []
         then Inr \<lparr>hostname = host, pathname = (if path = [] then ''/'' else path)\<rparr>
         else Inl (Error ''Invalid URL''))"

subsection \<open>Map objects\<close>

text \<open>
  A JavaScript \<open>Map\<close> iterates in insertion order: it is an association list in which
  \<open>set\<close> on a key that is present replaces the value in place and \<open>set\<close> on a new key
  appends the entry.
\<close>

type_synonym ('k, 'v) jsmap = "('k \<times> 'v) list"

definition map_get :: "('k, 'v) jsmap \<Rightarrow> 'k \<Rightarrow> 'v option" where
  "map_get m k = map_of m k"

fun map_set :: "'k \<Rightarrow> 'v \<Rightarrow> ('k, 'v) jsmap \<Rightarrow> ('k, 'v) jsmap" where
  "map_set k v [] = [(k, v)]"
| "map_set k v (e # m) = (if fst e = k then (k, v) # m else e # map_set k v m)"

definition map_has :: "('k, 'v) jsmap \<Rightarrow> 'k \<Rightarrow> bool" where
  "map_has m k \<longleftrightarrow> k \<in> fst ` set m"

text \<open>\<open>m.get(k) || 0\<close> on a map of counts.\<close>

definition get_or_zero :: "('k, nat) jsmap \<Rightarrow> 'k \<Rightarrow> nat" where
  "get_or_zero m k = (case map_get m k of None \<Rightarrow> 0 | Some c \<Rightarrow> (if c = 0 then 0 else c))"

section \<open>Keyword and domain statistics (telegram-bot.js)\<close>

record keyword_stat =
  keyword :: string
  count :: nat

text \<open>
  The two statistics have the fields \<open>keyword\<close>, \<open>count\<close> and \<open>domain\<close>, \<open>count\<close> in the
  source; the fields of the second carry a prefix here.
\<close>

record domain_stat =
  ds_domain :: string
  ds_count :: nat

definition stoplist :: "string list" where
  "stoplist = [''index'', ''page'', ''post'', ''article'', ''news'', ''blog'']"

text \<open>The filter of lines 311 to 314 of \<open>extractKeywordsWithCount\<close>.\<close>

definition keepSegment :: "string \<Rightarrow> bool" where
  "keepSegment segment \<longleftrightarrow>
     length segment > 2 \<and> \<not> allDigits segment \<and> CHR ''.'' \<notin> set segment \<and>
     toLowerCase segment \<notin> set stoplist"

definition cleanSegment :: "string \<Rightarrow> string" where
  "cleanSegment segment = toLowerCase (removeHyphens segment)"

text \<open>The body of the inner loop: one segment of a path.\<close>

definition countSegment :: "(string, nat) jsmap \<Rightarrow> string \<Rightarrow> (string, nat) jsmap" where
  "countSegment keywordCounts segment =
     (if keepSegment segment
      then (if length (cleanSegment segment) > 2
            then map_set (cleanSegment segment)
                   (get_or_zero keywordCounts (cleanSegment segment) + 1) keywordCounts
            else keywordCounts)
      else keywordCounts)"

definition pathSegments :: "string \<Rightarrow> string list" where
  "pathSegments path = filter (\<lambda>segment. length segment > 2) (split_str CHR ''/'' path)"

text \<open>The body of the outer loop: one URL, an invalid one being ignored by the catch.\<close>

definition countUrl :: "url_parser \<Rightarrow> (string, nat) jsmap \<Rightarrow> string \<Rightarrow> (string, nat) jsmap" where
  "countUrl newURL keywordCounts u =
     (case newURL u of
        Inl e \<Rightarrow> keywordCounts
      | Inr urlObj \<Rightarrow> foldl countSegment keywordCounts (pathSegments (pathname urlObj)))"

definition keywordCountsOf :: "url_parser \<Rightarrow> string list \<Rightarrow> (string, nat) jsmap" where
  "keywordCountsOf newURL urls = foldl (countUrl newURL) [] urls"

text \<open>
  \<open>Array.prototype.sort\<close> is stable; with the comparator \<open>b.count - a.count\<close> it is a
  stable sort by descending count, that is by ascending negated count.
\<close>

definition sortByCountDesc :: "('a \<Rightarrow> nat) \<Rightarrow> 'a list \<Rightarrow> 'a list" where
  "sortByCountDesc cnt xs = sort_key (\<lambda>x. - int (cnt x)) xs"

definition extractKeywordsWithCount :: "url_parser \<Rightarrow> string list \<Rightarrow> keyword_stat list" where
  "extractKeywordsWithCount newURL urls =
     take 10 (sortByCountDesc count
       (map (\<lambda>(k, c). \<lparr>keyword = k, count = c\<rparr>) (keywordCountsOf newURL urls)))"

definition countDomain :: "url_parser \<Rightarrow> (string, nat) jsmap \<Rightarrow> string \<Rightarrow> (string, nat) jsmap" where
  "countDomain newURL domainCounts u =
     (case newURL u of
        Inl e \<Rightarrow> domainCounts
      | Inr urlObj \<Rightarrow>
          map_set (hostname urlObj) (get_or_zero domainCounts (hostname urlObj) + 1) domainCounts)"

definition extractDomainStats :: "url_parser \<Rightarrow> string list \<Rightarrow> domain_stat list" where
  "extractDomainStats newURL urls =
     sortByCountDesc ds_count
       (map (\<lambda>(d, c). \<lparr>ds_domain = d, ds_count = c\<rparr>) (foldl (countDomain newURL) [] urls))"

definition extractKeywords :: "url_parser \<Rightarrow> string list \<Rightarrow> string list" where
  "extractKeywords newURL urls = map keyword (extractKeywordsWithCount newURL urls)"

section \<open>The scheduled monitoring pass (Workers entry file)\<close>

subsection \<open>Data\<close>

text \<open>The progress record kept under the key \<open>monitoring_progress\<close>.\<close>

record progress =
  lastIndex :: int
  lastUpdate :: string
  totalFeeds :: nat
  processedInThisBatch :: nat

text \<open>
  What \<open>addFeed\<close> and \<open>downloadSitemap\<close> of the RSS manager return. A property that may
  be missing is an option; \<open>truthy\<close> is JavaScript's test of a string that may be missing.
\<close>

record feed_result =
  success :: bool
  errorMsg :: string
  datedFile :: "string option"
  newUrls :: "string list option"

definition truthy :: "string option \<Rightarrow> bool" where
  "truthy v \<longleftrightarrow> (case v of None \<Rightarrow> False | Some s \<Rightarrow> s \<noteq> [])"

text \<open>\<open>result.newUrls && result.newUrls.length > 0\<close>\<close>

definition hasNewUrls :: "feed_result \<Rightarrow> bool" where
  "hasNewUrls result \<longleftrightarrow> (case newUrls result of None \<Rightarrow> False | Some us \<Rightarrow> length us > 0)"

definition newUrlsOf :: "feed_result \<Rightarrow> string list" where
  "newUrlsOf result = (case newUrls result of None \<Rightarrow> [] | Some us \<Rightarrow> us)"

text \<open>
  \<open>xs.slice(start, end)\<close> on integers: a negative index counts from the end of the
  array, and both indices are cut to the range of the array.
\<close>

definition js_slice :: "'a list \<Rightarrow> int \<Rightarrow> int \<Rightarrow> 'a list" where
  "js_slice xs start fin =
     (let len = int (length xs);
          k = (if start < 0 then max (len + start) 0 else min start len);
          final = (if fin < 0 then max (len + fin) 0 else min fin len)
      in take (nat (final - k)) (drop (nat k) xs))"

subsection \<open>Collaborators and their calls\<close>

text \<open>
  The RSS manager, its key-value store, the notifier and the platform are outside the
  scheduler; each call of them may throw. \<open>kvGet\<close> stands for \<open>kv.get\<close> followed by
  \<open>JSON.parse\<close> (\<open>None\<close>: no data under the key; \<open>Inl\<close>: either of the two throws), with
  an integer under \<open>lastIndex\<close>. What \<open>kv.put\<close> answers has no field: the pass catches
  and logs a throw of it and goes on as after a return. \<open>now\<close> is the time stamp of
  \<open>new Date().toISOString()\<close>, \<open>reportTime\<close> the local time that the report prints, and
  \<open>configTargetChat\<close> the chat of \<open>telegramConfig\<close>.
\<close>

record collaborators =
  getFeeds :: "error + string list"
  kvGet :: "error + progress option"
  addFeed :: "string \<Rightarrow> error + feed_result"
  downloadSitemap :: "string \<Rightarrow> bool \<Rightarrow> error + feed_result"
  getSitemapContent :: "string \<Rightarrow> string \<Rightarrow> error + string option"
  sendUpdateNotification :: "string \<Rightarrow> string list \<Rightarrow> string option \<Rightarrow> error + unit"
  sendMessage :: "string \<Rightarrow> string \<Rightarrow> error + unit"
  platformURL :: url_parser
  now :: string
  reportTime :: string
  configTargetChat :: "string option"

text \<open>
  What a run does to the world is the sequence of its calls to the collaborators, in the
  order they are made: a call is recorded when it is made, whether it returns or throws.
\<close>

datatype event =
    GetFeeds
  | KvGet
  | KvPut progress
  | AddFeed string
  | DownloadSitemap string bool
  | GetSitemapContent string string
  | UpdateNotification string "string list" "string option"
  | KeywordsSummary "string list"
  | SendMessage string string

definition feedsChecked :: "event list \<Rightarrow> string list" where
  "feedsChecked tr = concat (map (\<lambda>e. case e of AddFeed u \<Rightarrow> [u] | _ \<Rightarrow> []) tr)"

definition storeWrites :: "event list \<Rightarrow> progress list" where
  "storeWrites tr = concat (map (\<lambda>e. case e of KvPut p \<Rightarrow> [p] | _ \<Rightarrow> []) tr)"

definition notifierCalls :: "event list \<Rightarrow> event list" where
  "notifierCalls tr =
     filter (\<lambda>e. case e of UpdateNotification u us content \<Rightarrow> True
                        | KeywordsSummary us \<Rightarrow> True
                        | SendMessage chat msg \<Rightarrow> True
                        | _ \<Rightarrow> False) tr"

subsection \<open>\<open>performScheduledMonitoring\<close>\<close>

definition BATCH_SIZE :: int where
  "BATCH_SIZE = 25"

text \<open>Lines 72 to 81: the stored position, or 0 when there is none or the read throws.\<close>

definition readLastIndex :: "collaborators \<Rightarrow> int" where
  "readLastIndex c =
     (case kvGet c of
        Inl e \<Rightarrow> 0
      | Inr None \<Rightarrow> 0
      | Inr (Some progress) \<Rightarrow> (if lastIndex progress = 0 then 0 else lastIndex progress))"

text \<open>
  A block of statements runs from a state to a state and either completes (\<open>Inr\<close>) or
  throws (\<open>Inl\<close>); what it has done to the state before it throws stays done. A \<open>for\<close>
  loop runs its body on the elements in turn and ends at once when the body throws.
\<close>

type_synonym ('s, 'a) run = "(error + 'a) \<times> 's"

fun forOf :: "('s \<Rightarrow> 'x \<Rightarrow> ('s, unit) run) \<Rightarrow> 's \<Rightarrow> 'x list \<Rightarrow> ('s, unit) run" where
  "forOf body s [] = (Inr (), s)"
| "forOf body s (x # xs) =
     (case body s x of
        (Inl e, s') \<Rightarrow> (Inl e, s')
      | (Inr ok, s') \<Rightarrow> forOf body s' xs)"

record pass_state =
  trace :: "event list"
  allNewUrls :: "string list"

text \<open>Lines 102 to 106: the sitemap content, when the result names a dated file.\<close>

definition fetchContent ::
  "collaborators \<Rightarrow> pass_state \<Rightarrow> string \<Rightarrow> feed_result \<Rightarrow> (pass_state, string option) run"
where
  "fetchContent c s u result =
     (if truthy (datedFile result)
      then (case platformURL c u of
              Inl e \<Rightarrow> (Inl e, s)
            | Inr urlObj \<Rightarrow>
                (let s' = s\<lparr>trace := trace s @ [GetSitemapContent (hostname urlObj) ''dated'']\<rparr>
                 in case getSitemapContent c (hostname urlObj) ''dated'' of
                      Inl e \<Rightarrow> (Inl e, s')
                    | Inr content \<Rightarrow> (Inr content, s')))
      else (Inr None, s))"

text \<open>
  The \<open>try\<close> block of lines 95 to 124 for one feed. The pause between two feeds has no
  effect on the calls and is left out.
\<close>

definition checkFeedTry :: "collaborators \<Rightarrow> pass_state \<Rightarrow> string \<Rightarrow> (pass_state, unit) run" where
  "checkFeedTry c s u =
     (let s1 = s\<lparr>trace := trace s @ [AddFeed u]\<rparr>
      in case addFeed c u of
           Inl e \<Rightarrow> (Inl e, s1)
         | Inr result \<Rightarrow>
             if success result
             then (case fetchContent c s1 u result of
                     (Inl e, s2) \<Rightarrow> (Inl e, s2)
                   | (Inr sitemapContent, s2) \<Rightarrow>
                       if hasNewUrls result
                       then (let s3 = s2\<lparr>trace := trace s2 @
                                   [UpdateNotification u (newUrlsOf result) sitemapContent]\<rparr>
                             in case sendUpdateNotification c u (newUrlsOf result) sitemapContent of
                                  Inl e \<Rightarrow> (Inl e, s3)
                                | Inr ok \<Rightarrow>
                                    (Inr (), s3\<lparr>allNewUrls := allNewUrls s3 @ newUrlsOf result\<rparr>))
                       else (Inr (), s2))
             else (Inr (), s1))"

text \<open>
  The body of the loop of lines 93 to 128: the \<open>try\<close> block and its \<open>catch\<close> of line 125,
  which logs the error and completes.
\<close>

definition checkFeed :: "collaborators \<Rightarrow> pass_state \<Rightarrow> string \<Rightarrow> (pass_state, unit) run" where
  "checkFeed c s u =
     (case checkFeedTry c s u of
        (Inl error, s') \<Rightarrow> (Inr (), s')
      | (Inr ok, s') \<Rightarrow> (Inr (), s'))"

text \<open>
  The pass with the batch size as a parameter: lines 59 to 148, inside the \<open>try\<close> of line
  51. What \<open>getFeeds\<close> or the loop throws ends the pass in the catch of line 158, which
  logs it; a throwing \<open>kv.put\<close> is caught at line 140 and the pass goes on.
\<close>

definition monitoringPass :: "int \<Rightarrow> collaborators \<Rightarrow> event list" where
  "monitoringPass batchSize c =
     (case getFeeds c of
        Inl e \<Rightarrow> [GetFeeds]
      | Inr feeds \<Rightarrow>
          if length feeds = 0 then [GetFeeds]
          else
            (let startIndex = readLastIndex c;
                 endIndex = min (startIndex + batchSize) (int (length feeds));
                 currentBatch = js_slice feeds startIndex endIndex
             in case forOf (checkFeed c) \<lparr>trace = [GetFeeds, KvGet], allNewUrls = []\<rparr> currentBatch of
                  (Inl e, s) \<Rightarrow> trace s
                | (Inr ok, s) \<Rightarrow>
                    (let nextIndex = (if endIndex \<ge> int (length feeds) then 0 else endIndex);
                         written = \<lparr>lastIndex = nextIndex, lastUpdate = now c,
                                    totalFeeds = length feeds,
                                    processedInThisBatch = length currentBatch\<rparr>
                     in trace s @ [KvPut written] @
                        (if length (allNewUrls s) > 0 then [KeywordsSummary (allNewUrls s)]
                         else []))))"

text \<open>The pass as the entry file runs it; \<open>None\<close> is the manager that was never set up.\<close>

definition performScheduledMonitoring :: "collaborators option \<Rightarrow> event list" where
  "performScheduledMonitoring rssManager =
     (case rssManager of
        None \<Rightarrow> []
      | Some c \<Rightarrow> monitoringPass BATCH_SIZE c)"

section \<open>The unified report of the news command (telegram-bot.js)\<close>

subsection \<open>Message texts\<close>

text \<open>
  A message is the string of its UTF-8 bytes; the texts of the source that are not ASCII
  are written out byte by byte, each with its meaning in English.
\<close>

text \<open>Line 180: the title, 'summary report of the 8-hour monitoring', in bold after a chart sign.\<close>

definition REPORT_TITLE :: string where
  "REPORT_TITLE =
     [CHR 0xF0, CHR 0x9F, CHR 0x93, CHR 0x8A] @
     '' <b>8'' @
     [CHR 0xE5, CHR 0xB0, CHR 0x8F, CHR 0xE6, CHR 0x97, CHR 0xB6] @
     [CHR 0xE7, CHR 0x9B, CHR 0x91, CHR 0xE6, CHR 0x8E, CHR 0xA7] @
     [CHR 0xE6, CHR 0xB1, CHR 0x87, CHR 0xE6, CHR 0x80, CHR 0xBB] @
     [CHR 0xE6, CHR 0x8A, CHR 0xA5, CHR 0xE5, CHR 0x91, CHR 0x8A] @
     ''</b>'' @
     [CHR 0x0A]"

text \<open>Line 181: the label 'date of the statistics'.\<close>

definition REPORT_DATE :: string where
  "REPORT_DATE =
     [CHR 0xE7, CHR 0xBB, CHR 0x9F, CHR 0xE8, CHR 0xAE, CHR 0xA1] @
     [CHR 0xE6, CHR 0x97, CHR 0xA5, CHR 0xE6, CHR 0x9C, CHR 0x9F] @
     [CHR 0xEF, CHR 0xBC, CHR 0x9A]"

text \<open>Line 182: a rule and an empty line.\<close>

definition REPORT_RULE :: string where
  "REPORT_RULE =
     ''===================================='' @
     [CHR 0x0A, CHR 0x0A]"

text \<open>Line 185: the heading 'summary of the domain check'.\<close>

definition SUMMARY_HEAD :: string where
  "SUMMARY_HEAD =
     [CHR 0xF0, CHR 0x9F, CHR 0x93, CHR 0x88] @
     '' <b>'' @
     [CHR 0xE5, CHR 0x9F, CHR 0x9F, CHR 0xE5, CHR 0x90, CHR 0x8D] @
     [CHR 0xE6, CHR 0xA3, CHR 0x80, CHR 0xE6, CHR 0x9F, CHR 0xA5] @
     [CHR 0xE6, CHR 0xB1, CHR 0x87, CHR 0xE6, CHR 0x80, CHR 0xBB] @
     ''</b>'' @
     [CHR 0x0A]"

text \<open>Line 186: 'checked:'.\<close>

definition SUMMARY_DONE :: string where
  "SUMMARY_DONE =
     [CHR 0xE6, CHR 0xA3, CHR 0x80, CHR 0xE6, CHR 0x9F, CHR 0xA5] @
     [CHR 0xE5, CHR 0xAE, CHR 0x8C, CHR 0xE6, CHR 0x88, CHR 0x90] @
     [CHR 0xEF, CHR 0xBC, CHR 0x9A]"

text \<open>Line 186: the unit after the number of sitemaps.\<close>

definition SUMMARY_SITEMAPS :: string where
  "SUMMARY_SITEMAPS =
     '' '' @
     [CHR 0xE4, CHR 0xB8, CHR 0xAA] @
     ''sitemap''"

text \<open>Line 188: ', failed:'.\<close>

definition SUMMARY_FAILED :: string where
  "SUMMARY_FAILED =
     [CHR 0xEF, CHR 0xBC, CHR 0x8C, CHR 0xE5, CHR 0xA4, CHR 0xB1] @
     [CHR 0xE8, CHR 0xB4, CHR 0xA5, CHR 0xEF, CHR 0xBC, CHR 0x9A]"

text \<open>Line 188: the unit after the number of failures.\<close>

definition SUMMARY_UNIT :: string where
  "SUMMARY_UNIT =
     '' '' @
     [CHR 0xE4, CHR 0xB8, CHR 0xAA]"

text \<open>Line 193: 'no new content for now' and an empty line.\<close>

definition NO_NEW_CONTENT :: string where
  "NO_NEW_CONTENT =
     [CHR 0xE6, CHR 0x9A, CHR 0x82, CHR 0xE6, CHR 0x97, CHR 0xA0] @
     [CHR 0xE6, CHR 0x96, CHR 0xB0, CHR 0xE5, CHR 0xA2, CHR 0x9E] @
     [CHR 0xE5, CHR 0x86, CHR 0x85, CHR 0xE5, CHR 0xAE, CHR 0xB9] @
     [CHR 0x0A, CHR 0x0A]"

text \<open>Line 201: a globe sign and the opening of the bold domain name.\<close>

definition DOMAIN_OPEN :: string where
  "DOMAIN_OPEN =
     [CHR 0xF0, CHR 0x9F, CHR 0x8C, CHR 0x90] @
     '' <b>''"

text \<open>Line 201: the end of the bold domain name.\<close>

definition DOMAIN_CLOSE :: string where
  "DOMAIN_CLOSE =
     ''</b>'' @
     [CHR 0x0A]"

text \<open>Line 202: 'newly added'.\<close>

definition DOMAIN_ADDED :: string where
  "DOMAIN_ADDED =
     [CHR 0xE6, CHR 0x96, CHR 0xB0, CHR 0xE5, CHR 0xA2, CHR 0x9E] @
     [CHR 0xE5, CHR 0x8A, CHR 0xA0] @
     '' ''"

text \<open>Line 202: the unit 'links'.\<close>

definition DOMAIN_LINKS :: string where
  "DOMAIN_LINKS =
     '' '' @
     [CHR 0xE4, CHR 0xB8, CHR 0xAA, CHR 0xE9, CHR 0x93, CHR 0xBE] @
     [CHR 0xE6, CHR 0x8E, CHR 0xA5, CHR 0x0A]"

text \<open>Line 206: 'links:'.\<close>

definition LINKS_LABEL :: string where
  "LINKS_LABEL =
     [CHR 0xE9, CHR 0x93, CHR 0xBE, CHR 0xE6, CHR 0x8E, CHR 0xA5] @
     [CHR 0xEF, CHR 0xBC, CHR 0x9A, CHR 0x0A]"

text \<open>Line 211: '...(and another'.\<close>

definition MORE_OPEN :: string where
  "MORE_OPEN =
     ''...('' @
     [CHR 0xE8, CHR 0xBF, CHR 0x98, CHR 0xE6, CHR 0x9C, CHR 0x89]"

text \<open>Line 211: the unit and the closing bracket.\<close>

definition MORE_CLOSE :: string where
  "MORE_CLOSE =
     [CHR 0xE4, CHR 0xB8, CHR 0xAA] @
     '')'' @
     [CHR 0x0A]"

text \<open>Lines 220 and 230: the heading 'summary of the keywords'.\<close>

definition KEYWORDS_HEAD :: string where
  "KEYWORDS_HEAD =
     [CHR 0xF0, CHR 0x9F, CHR 0x8F, CHR 0xB7, CHR 0xEF, CHR 0xB8] @
     [CHR 0x8F] @
     '' <b>'' @
     [CHR 0xE5, CHR 0x85, CHR 0xB3, CHR 0xE9, CHR 0x94, CHR 0xAE] @
     [CHR 0xE8, CHR 0xAF, CHR 0x8D, CHR 0xE6, CHR 0xB1, CHR 0x87] @
     [CHR 0xE6, CHR 0x80, CHR 0xBB] @
     ''</b>'' @
     [CHR 0x0A]"

text \<open>Line 224: the ideographic comma after the rank.\<close>

definition KEYWORD_SEP :: string where
  "KEYWORD_SEP =
     [CHR 0xE3, CHR 0x80, CHR 0x81]"

text \<open>Line 224: 'times)'.\<close>

definition KEYWORD_TIMES :: string where
  "KEYWORD_TIMES =
     [CHR 0xE6, CHR 0xAC, CHR 0xA1] @
     '')'' @
     [CHR 0x0A]"

text \<open>Line 227: 'no valid keyword was extracted'.\<close>

definition NO_KEYWORDS :: string where
  "NO_KEYWORDS =
     [CHR 0xE6, CHR 0x9C, CHR 0xAA, CHR 0xE6, CHR 0x8F, CHR 0x90] @
     [CHR 0xE5, CHR 0x8F, CHR 0x96, CHR 0xE5, CHR 0x88, CHR 0xB0] @
     [CHR 0xE6, CHR 0x9C, CHR 0x89, CHR 0xE6, CHR 0x95, CHR 0x88] @
     [CHR 0xE5, CHR 0x85, CHR 0xB3, CHR 0xE9, CHR 0x94, CHR 0xAE] @
     [CHR 0xE8, CHR 0xAF, CHR 0x8D, CHR 0x0A]"

text \<open>Line 231: 'this check found no new content'.\<close>

definition NOTHING_NEW_THIS_CHECK :: string where
  "NOTHING_NEW_THIS_CHECK =
     [CHR 0xE6, CHR 0x9C, CHR 0xAC, CHR 0xE6, CHR 0xAC, CHR 0xA1] @
     [CHR 0xE6, CHR 0xA3, CHR 0x80, CHR 0xE6, CHR 0x9F, CHR 0xA5] @
     [CHR 0xE6, CHR 0x97, CHR 0xA0, CHR 0xE6, CHR 0x96, CHR 0xB0] @
     [CHR 0xE5, CHR 0xA2, CHR 0x9E, CHR 0xE5, CHR 0x86, CHR 0x85] @
     [CHR 0xE5, CHR 0xAE, CHR 0xB9, CHR 0x0A]"

text \<open>Line 234: the closing rule.\<close>

definition FOOT_RULE :: string where
  "FOOT_RULE =
     [CHR 0x0A] @
     ''===================================='' @
     [CHR 0x0A]"

text \<open>Line 235: 'new in total:'.\<close>

definition TOTAL_NEW :: string where
  "TOTAL_NEW =
     [CHR 0xF0, CHR 0x9F, CHR 0x93, CHR 0x8A] @
     '' '' @
     [CHR 0xE6, CHR 0x80, CHR 0xBB, CHR 0xE8, CHR 0xAE, CHR 0xA1] @
     [CHR 0xE6, CHR 0x96, CHR 0xB0, CHR 0xE5, CHR 0xA2, CHR 0x9E] @
     [CHR 0xEF, CHR 0xBC, CHR 0x9A]"

text \<open>Line 235: the unit 'links'.\<close>

definition TOTAL_LINKS :: string where
  "TOTAL_LINKS =
     '' '' @
     [CHR 0xE4, CHR 0xB8, CHR 0xAA, CHR 0xE9, CHR 0x93, CHR 0xBE] @
     [CHR 0xE6, CHR 0x8E, CHR 0xA5]"

text \<open>Line 513: 'no sitemap is monitored at present'.\<close>

definition MSG_NO_FEEDS :: string where
  "MSG_NO_FEEDS =
     [CHR 0xE5, CHR 0xBD, CHR 0x93, CHR 0xE5, CHR 0x89, CHR 0x8D] @
     [CHR 0xE6, CHR 0xB2, CHR 0xA1, CHR 0xE6, CHR 0x9C, CHR 0x89] @
     [CHR 0xE7, CHR 0x9B, CHR 0x91, CHR 0xE6, CHR 0x8E, CHR 0xA7] @
     [CHR 0xE7, CHR 0x9A, CHR 0x84] @
     ''sitemap''"

text \<open>Line 517: 'the unified check, triggered by hand, starts...'.\<close>

definition MSG_START :: string where
  "MSG_START =
     [CHR 0xE5, CHR 0xBC, CHR 0x80, CHR 0xE5, CHR 0xA7, CHR 0x8B] @
     [CHR 0xE6, CHR 0x89, CHR 0x8B, CHR 0xE5, CHR 0x8A, CHR 0xA8] @
     [CHR 0xE8, CHR 0xA7, CHR 0xA6, CHR 0xE5, CHR 0x8F, CHR 0x91] @
     [CHR 0xE7, CHR 0xBB, CHR 0x9F, CHR 0xE4, CHR 0xB8, CHR 0x80] @
     [CHR 0xE6, CHR 0xA3, CHR 0x80, CHR 0xE6, CHR 0x9F, CHR 0xA5] @
     ''...''"

text \<open>Line 565: 'the news command failed, try again later'.\<close>

definition MSG_FAILED :: string where
  "MSG_FAILED =
     [CHR 0xE5, CHR 0xA4, CHR 0x84, CHR 0xE7, CHR 0x90, CHR 0x86] @
     [CHR 0xE6, CHR 0x96, CHR 0xB0, CHR 0xE9, CHR 0x97, CHR 0xBB] @
     [CHR 0xE5, CHR 0x91, CHR 0xBD, CHR 0xE4, CHR 0xBB, CHR 0xA4] @
     [CHR 0xE5, CHR 0xA4, CHR 0xB1, CHR 0xE8, CHR 0xB4, CHR 0xA5] @
     [CHR 0xEF, CHR 0xBC, CHR 0x8C, CHR 0xE8, CHR 0xAF, CHR 0xB7] @
     [CHR 0xE7, CHR 0xA8, CHR 0x8D, CHR 0xE5, CHR 0x90, CHR 0x8E] @
     [CHR 0xE9, CHR 0x87, CHR 0x8D, CHR 0xE8, CHR 0xAF, CHR 0x95]"

text \<open>A number inside a template literal: its decimal digits.\<close>

fun showNat :: "nat \<Rightarrow> string" where
  "showNat n =
     (if n < 10 then [char_of (48 + n)]
      else showNat (n div 10) @ [char_of (48 + n mod 10)])"

subsection \<open>The check of all feeds\<close>

text \<open>
  One entry of \<open>domainResults\<close>. The fields are \<open>domain\<close>, \<open>newUrls\<close> and \<open>totalNew\<close> in
  the source; they carry a prefix here because \<open>newUrls\<close> is a field of the feed result
  too.
\<close>

record domain_result =
  dr_domain :: string
  dr_newUrls :: "string list"
  dr_totalNew :: nat

text \<open>The variables of lines 520 to 523, and the feeds downloaded so far.\<close>

record news_state =
  domainResults :: "(string, domain_result) jsmap"
  newsNewUrls :: "string list"
  processedCount :: nat
  errorCount :: nat
  downloaded :: "string list"

definition newsInit :: news_state where
  "newsInit = \<lparr>domainResults = [], newsNewUrls = [], processedCount = 0, errorCount = 0,
               downloaded = []\<rparr>"

text \<open>
  Lines 545 to 552: the new URLs are added to the entry of the domain. Reading a field of
  a missing entry would throw (line 537 has just made the entry).
\<close>

definition addNewUrls :: "news_state \<Rightarrow> string \<Rightarrow> string list \<Rightarrow> (news_state, unit) run" where
  "addNewUrls s domain us =
     (case map_get (domainResults s) domain of
        None \<Rightarrow> (Inl (Error ''TypeError''), s)
      | Some domainData \<Rightarrow>
          (Inr (),
           s\<lparr>domainResults :=
                map_set domain
                  (domainData\<lparr>dr_newUrls := dr_newUrls domainData @ us,
                              dr_totalNew := dr_totalNew domainData + length us\<rparr>)
                  (domainResults s),
             newsNewUrls := newsNewUrls s @ us\<rparr>))"

text \<open>The \<open>try\<close> block of lines 526 to 553 for one feed.\<close>

definition newsTry :: "collaborators \<Rightarrow> news_state \<Rightarrow> string \<Rightarrow> (news_state, unit) run" where
  "newsTry c s u =
     (let s0 = s\<lparr>downloaded := downloaded s @ [u]\<rparr>
      in case downloadSitemap c u True of
           Inl e \<Rightarrow> (Inl e, s0)
         | Inr result \<Rightarrow>
             (let s1 = s0\<lparr>processedCount := processedCount s0 + 1\<rparr>
              in if success result
                 then (case platformURL c u of
                         Inl e \<Rightarrow> (Inl e, s1)
                       | Inr urlObj \<Rightarrow>
                           (let domain = hostname urlObj;
                                s2 = (if \<not> map_has (domainResults s1) domain
                                      then s1\<lparr>domainResults :=
                                                map_set domain
                                                  \<lparr>dr_domain = domain, dr_newUrls = [],
                                                   dr_totalNew = 0\<rparr>
                                                  (domainResults s1)\<rparr>
                                      else s1)
                            in if hasNewUrls result
                               then addNewUrls s2 domain (newUrlsOf result)
                               else (Inr (), s2)))
                 else (Inr (), s1)))"

text \<open>
  The body of the loop of lines 525 to 558: the \<open>try\<close> block and its \<open>catch\<close> of line 554,
  which counts the error and completes.
\<close>

definition newsStep :: "collaborators \<Rightarrow> news_state \<Rightarrow> string \<Rightarrow> (news_state, unit) run" where
  "newsStep c s u =
     (case newsTry c s u of
        (Inl error, s') \<Rightarrow> (Inr (), s'\<lparr>errorCount := errorCount s' + 1\<rparr>)
      | (Inr ok, s') \<Rightarrow> (Inr (), s'))"

definition checkAllFeeds :: "collaborators \<Rightarrow> string list \<Rightarrow> (news_state, unit) run" where
  "checkAllFeeds c feeds = forOf (newsStep c) newsInit feeds"

subsection \<open>\<open>sendUnifiedReport\<close>\<close>

text \<open>\<open>xs.forEach((x, index) => ...)\<close> with the 1-based rank that the report prints.\<close>

definition withRank :: "'a list \<Rightarrow> (nat \<times> 'a) list" where
  "withRank xs = zip [1 ..< Suc (length xs)] xs"

text \<open>Lines 201 to 213: the block of one domain.\<close>

definition domainBlock :: "domain_result \<Rightarrow> string" where
  "domainBlock domainData =
     DOMAIN_OPEN @ dr_domain domainData @ DOMAIN_CLOSE @
     DOMAIN_ADDED @ showNat (dr_totalNew domainData) @ DOMAIN_LINKS @
     LINKS_LABEL @
     concat (map (\<lambda>(rank, u). showNat rank @ ''. '' @ u @ [CHR 0x0A])
               (withRank (take 3 (dr_newUrls domainData)))) @
     (if length (dr_newUrls domainData) > 3
      then MORE_OPEN @ showNat (length (dr_newUrls domainData) - 3) @ MORE_CLOSE
      else []) @
     [CHR 0x0A]"

text \<open>Lines 192 to 215: the breakdown by domain.\<close>

definition breakdownSection :: "(string, domain_result) jsmap \<Rightarrow> string" where
  "breakdownSection results =
     (if length results = 0 then NO_NEW_CONTENT
      else concat (map domainBlock
             (sortByCountDesc dr_totalNew
                (filter (\<lambda>d. dr_totalNew d > 0) (map snd results)))))"

text \<open>Lines 218 to 232: the keywords.\<close>

definition keywordSection :: "url_parser \<Rightarrow> string list \<Rightarrow> string" where
  "keywordSection newURL urls =
     (if length urls > 0
      then (let keywordStats = extractKeywordsWithCount newURL urls
            in KEYWORDS_HEAD @
               (if length keywordStats > 0
                then concat (map (\<lambda>(rank, stat). showNat rank @ KEYWORD_SEP @ keyword stat @
                                     '' ('' @ showNat (count stat) @ KEYWORD_TIMES)
                               (withRank (take 10 keywordStats)))
                else NO_KEYWORDS))
      else KEYWORDS_HEAD @ NOTHING_NEW_THIS_CHECK)"

text \<open>Lines 180 to 235: the whole message. The report time is formatted by the platform.\<close>

definition reportMessage ::
  "url_parser \<Rightarrow> string \<Rightarrow> (string, domain_result) jsmap \<Rightarrow> string list \<Rightarrow> nat \<Rightarrow> nat \<Rightarrow> string"
where
  "reportMessage newURL time results urls processed errors =
     REPORT_TITLE @ REPORT_DATE @ time @ [CHR 0x0A] @ REPORT_RULE @
     SUMMARY_HEAD @ SUMMARY_DONE @ showNat processed @ SUMMARY_SITEMAPS @
     (if errors > 0 then SUMMARY_FAILED @ showNat errors @ SUMMARY_UNIT else []) @
     [CHR 0x0A, CHR 0x0A] @
     breakdownSection results @
     keywordSection newURL urls @
     FOOT_RULE @ TOTAL_NEW @ showNat (length urls) @ TOTAL_LINKS"

text \<open>
  \<open>targetChat || telegramConfig.targetChat\<close>: without a chat nothing is sent. A send that
  throws is caught at line 240.
\<close>

definition sendUnifiedReport ::
  "collaborators \<Rightarrow> (string, domain_result) jsmap \<Rightarrow> string list \<Rightarrow> nat \<Rightarrow> nat \<Rightarrow>
   string option \<Rightarrow> event list"
where
  "sendUnifiedReport c results urls processed errors targetChat =
     (case (if truthy targetChat then targetChat else configTargetChat c) of
        None \<Rightarrow> []
      | Some chatId \<Rightarrow>
          if chatId = [] then []
          else [SendMessage chatId
                  (reportMessage (platformURL c) (reportTime c) results urls processed errors)])"

subsection \<open>\<open>handleNewsCommand\<close>\<close>

text \<open>
  Lines 509 to 567. What is thrown outside the body of the loop (by \<open>getFeeds\<close>, by the
  sending of the first message, or by the loop) reaches the catch of line 563, which
  sends the failure message.
\<close>

definition handleNewsCommand :: "collaborators \<Rightarrow> string \<Rightarrow> event list" where
  "handleNewsCommand c chatId =
     (case getFeeds c of
        Inl e \<Rightarrow> [GetFeeds, SendMessage chatId MSG_FAILED]
      | Inr feeds \<Rightarrow>
          if length feeds = 0
          then [GetFeeds, SendMessage chatId MSG_NO_FEEDS] @
               (case sendMessage c chatId MSG_NO_FEEDS of
                  Inl e \<Rightarrow> [SendMessage chatId MSG_FAILED]
                | Inr ok \<Rightarrow> [])
          else [GetFeeds, SendMessage chatId MSG_START] @
               (case sendMessage c chatId MSG_START of
                  Inl e \<Rightarrow> [SendMessage chatId MSG_FAILED]
                | Inr ok \<Rightarrow>
                    (case checkAllFeeds c feeds of
                       (Inl e, s) \<Rightarrow>
                         map (\<lambda>u. DownloadSitemap u True) (downloaded s) @
                         [SendMessage chatId MSG_FAILED]
                     | (Inr done, s) \<Rightarrow>
                         map (\<lambda>u. DownloadSitemap u True) (downloaded s) @
                         sendUnifiedReport c (domainResults s) (newsNewUrls s)
                           (processedCount s) (errorCount s) (Some chatId))))"

section \<open>Notions used to state the properties\<close>

subsection \<open>Keywords in the order the loops reach them\<close>

text \<open>One step of counting: what line 319 does to the map for the keyword \<open>k\<close>.\<close>

definition bump :: "(string, nat) jsmap \<Rightarrow> string \<Rightarrow> (string, nat) jsmap" where
  "bump m k = map_set k (get_or_zero m k + 1) m"

text \<open>
  The keywords that one URL contributes, in the order of its path, and those of a list
  of URLs, in the order the two loops of \<open>extractKeywordsWithCount\<close> reach them.
\<close>

definition urlKeywords :: "url_parser \<Rightarrow> string \<Rightarrow> string list" where
  "urlKeywords newURL u =
     (case newURL u of
        Inl e \<Rightarrow> []
      | Inr urlObj \<Rightarrow>
          map cleanSegment
            (filter (\<lambda>segment. keepSegment segment \<and> length (cleanSegment segment) > 2)
               (pathSegments (pathname urlObj))))"

definition keywordsInOrder :: "url_parser \<Rightarrow> string list \<Rightarrow> string list" where
  "keywordsInOrder newURL urls = concat (map (urlKeywords newURL) urls)"

text \<open>The position at which \<open>k\<close> is first seen in \<open>xs\<close> (the length of \<open>xs\<close> if it never is).\<close>

fun firstIndex :: "'a list \<Rightarrow> 'a \<Rightarrow> nat" where
  "firstIndex [] k = 0"
| "firstIndex (x # xs) k = (if x = k then 0 else Suc (firstIndex xs k))"

text \<open>A string that the platform's parser accepts.\<close>

definition parses :: "url_parser \<Rightarrow> string \<Rightarrow> bool" where
  "parses newURL u \<longleftrightarrow> (case newURL u of Inl e \<Rightarrow> False | Inr urlObj \<Rightarrow> True)"

subsection \<open>Calls of one kind in a trace\<close>

definition downloadsOf :: "event list \<Rightarrow> string list" where
  "downloadsOf tr = concat (map (\<lambda>e. case e of DownloadSitemap u force \<Rightarrow> [u] | _ \<Rightarrow> []) tr)"

subsection \<open>Example collaborators\<close>

text \<open>
  Three feeds, and collaborators for a given feed list and stored position: the store
  holds a record written when there were 30 feeds, the check of the feed of \<open>a.com\<close>
  throws, and every other check succeeds and finds nothing new.
\<close>

definition exampleFeeds :: "string list" where
  "exampleFeeds =
     [''https://a.com/sitemap.xml'', ''https://b.org/sitemap.xml'', ''https://c.net/sitemap.xml'']"

text \<open>Thirty feeds, all different: \<open>https://b.org/sitemap-0.xml\<close> and so on.\<close>

definition thirtyFeeds :: "string list" where
  "thirtyFeeds = map (\<lambda>n. ''https://b.org/sitemap-'' @ showNat n @ ''.xml'') [0 ..< 30]"

definition exampleResult :: "string \<Rightarrow> error + feed_result" where
  "exampleResult u =
     (if u = ''https://a.com/sitemap.xml'' then Inl (Error ''fetch failed'')
      else Inr \<lparr>success = True, errorMsg = [], datedFile = None, newUrls = Some []\<rparr>)"

definition exampleCollab :: "string list \<Rightarrow> int \<Rightarrow> collaborators" where
  "exampleCollab feeds i =
     \<lparr>getFeeds = Inr feeds,
      kvGet = Inr (Some \<lparr>lastIndex = i, lastUpdate = ''2026-01-01T00:00:00.000Z'',
                         totalFeeds = 30, processedInThisBatch = 25\<rparr>),
      addFeed = exampleResult,
      downloadSitemap = (\<lambda>u force. exampleResult u),
      getSitemapContent = (\<lambda>d kind. Inr None),
      sendUpdateNotification = (\<lambda>u us content. Inr ()),
      sendMessage = (\<lambda>chat msg. Inr ()),
      platformURL = plainHttpsURL,
      now = ''2026-01-02T00:00:00.000Z'',
      reportTime = ''2026/01/02 08:00:00'',
      configTargetChat = None\<rparr>"

section \<open>Properties of the statistics\<close>

subsection \<open>Counting is a fold over the keywords in order\<close>

lemma foldl_countSegment:
  "foldl countSegment m segs =
   foldl bump m (map cleanSegment
     (filter (\<lambda>segment. keepSegment segment \<and> length (cleanSegment segment) > 2) segs))"
  by (induction segs arbitrary: m) (simp_all add: countSegment_def bump_def)

lemma countUrl_bump: "countUrl p m u = foldl bump m (urlKeywords p u)"
  by (simp add: countUrl_def urlKeywords_def foldl_countSegment split: sum.splits)

lemma foldl_countUrl:
  "foldl (countUrl p) m urls = foldl bump m (concat (map (urlKeywords p) urls))"
  by (induction urls arbitrary: m) (simp_all add: countUrl_bump)

lemma keywordCountsOf_stream: "keywordCountsOf p urls = foldl bump [] (keywordsInOrder p urls)"
  by (simp add: keywordCountsOf_def keywordsInOrder_def foldl_countUrl)

lemma map_fst_map_set:
  "map fst (map_set k v m) = (if k \<in> fst ` set m then map fst m else map fst m @ [k])"
  by (induction m) auto

lemma map_of_map_set: "map_of (map_set k v m) = (map_of m)(k \<mapsto> v)"
  by (induction m) auto

lemma keys_bump:
  "map fst (bump m k) = (if k \<in> fst ` set m then map fst m else map fst m @ [k])"
  by (simp add: bump_def map_fst_map_set)

lemma keys_foldl_bump: "set (map fst (foldl bump [] ks)) = set ks"
proof (induction ks rule: rev_induct)
  case Nil
  show ?case by simp
next
  case (snoc k ks)
  then show ?case by (auto simp: keys_bump)
qed

lemma distinct_keys_foldl_bump: "distinct (map fst (foldl bump [] ks))"
proof (induction ks rule: rev_induct)
  case Nil
  show ?case by simp
next
  case (snoc k ks)
  then show ?case by (auto simp: keys_bump)
qed

lemma get_or_zero_map_of:
  "get_or_zero m k = (case map_of m k of None \<Rightarrow> 0 | Some c \<Rightarrow> c)"
  by (simp add: get_or_zero_def map_get_def split: option.splits)

lemma map_of_bump:
  "map_of (bump m k) = (map_of m)(k \<mapsto> Suc (case map_of m k of None \<Rightarrow> 0 | Some c \<Rightarrow> c))"
  by (simp add: bump_def map_of_map_set get_or_zero_map_of)

lemma map_of_foldl_bump:
  "map_of (foldl bump [] ks) k = (if k \<in> set ks then Some (count_list ks k) else None)"
proof (induction ks rule: rev_induct)
  case Nil
  show ?case by simp
next
  case (snoc x ks)
  then show ?case by (auto simp: map_of_bump)
qed

lemma entry_foldl_bump:
  assumes "(k, n) \<in> set (foldl bump [] ks)"
  shows "k \<in> set ks \<and> n = count_list ks k"
proof -
  have "map_of (foldl bump [] ks) k = Some n"
    using assms distinct_keys_foldl_bump by (simp add: map_of_eq_Some_iff)
  then show ?thesis by (simp add: map_of_foldl_bump split: if_splits)
qed

lemma keyword_entry:
  assumes "e \<in> set (extractKeywordsWithCount p urls)"
  shows "keyword e \<in> set (keywordsInOrder p urls) \<and>
         count e = count_list (keywordsInOrder p urls) (keyword e)"
proof -
  from assms have "e \<in> set (map (\<lambda>(k, c). \<lparr>keyword = k, count = c\<rparr>) (keywordCountsOf p urls))"
    by (auto simp: extractKeywordsWithCount_def sortByCountDesc_def dest: in_set_takeD)
  then obtain k n where "(k, n) \<in> set (keywordCountsOf p urls)" "e = \<lparr>keyword = k, count = n\<rparr>"
    by auto
  then show ?thesis using entry_foldl_bump[of k n] by (simp add: keywordCountsOf_stream)
qed

lemma toLowerChar_not_upper: "\<not> isUpper (toLowerChar c)"
  by (simp add: toLowerChar_def isUpper_def)

lemma of_char_toLowerChar:
  "isUpper c \<Longrightarrow> (of_char (toLowerChar c) :: nat) = of_char c + 32"
  by (simp add: toLowerChar_def isUpper_def)

lemma toLowerChar_hyphen:
  assumes "toLowerChar c = CHR ''-''"
  shows "c = CHR ''-''"
proof (cases "isUpper c")
  case True
  then have "(of_char (toLowerChar c) :: nat) = of_char c + 32"
    by (rule of_char_toLowerChar)
  with assms True show ?thesis by (simp add: isUpper_def)
next
  case False
  then show ?thesis using assms by (simp add: toLowerChar_def)
qed

lemma toLowerCase_idem: "toLowerCase (toLowerCase s) = toLowerCase s"
  by (simp add: toLowerCase_def toLowerChar_def toLowerChar_not_upper[unfolded toLowerChar_def])

lemma cleanSegment_shape:
  "toLowerCase (cleanSegment s) = cleanSegment s \<and>
   \<not> list_ex isUpper (cleanSegment s) \<and> CHR ''-'' \<notin> set (cleanSegment s)"
proof -
  have "CHR ''-'' \<notin> toLowerChar ` set (removeHyphens s)"
  proof
    assume "CHR ''-'' \<in> toLowerChar ` set (removeHyphens s)"
    then obtain c where c: "c \<in> set (removeHyphens s)" and "toLowerChar c = CHR ''-''"
      by (metis imageE)
    then have "c = CHR ''-''" by (simp add: toLowerChar_hyphen)
    with c show False by (simp add: removeHyphens_def)
  qed
  then have "CHR ''-'' \<notin> set (cleanSegment s)"
    by (simp add: cleanSegment_def toLowerCase_def)
  moreover have "\<not> list_ex isUpper (cleanSegment s)"
    by (simp add: cleanSegment_def toLowerCase_def list_ex_iff toLowerChar_not_upper)
  moreover have "toLowerCase (cleanSegment s) = cleanSegment s"
    by (simp add: cleanSegment_def toLowerCase_idem)
  ultimately show ?thesis by simp
qed

lemma keywordsInOrder_shape:
  assumes "k \<in> set (keywordsInOrder p urls)"
  shows "\<exists>segment. k = cleanSegment segment \<and> length k > 2"
  using assms by (auto simp: keywordsInOrder_def urlKeywords_def split: sum.splits)

subsection \<open>The order of the map and the stable sort\<close>

lemma firstIndex_append:
  "firstIndex (xs @ ys) k = (if k \<in> set xs then firstIndex xs k else length xs + firstIndex ys k)"
  by (induction xs) auto

lemma firstIndex_less: "k \<in> set xs \<Longrightarrow> firstIndex xs k < length xs"
  by (induction xs) auto

lemma keys_in_first_seen_order:
  "sorted_wrt (\<lambda>a b. firstIndex ks a < firstIndex ks b) (map fst (foldl bump [] ks))"
proof (induction ks rule: rev_induct)
  case Nil
  show ?case by simp
next
  case (snoc k ks)
  let ?m = "foldl bump [] ks"
  have keys: "set (map fst ?m) = set ks" by (rule keys_foldl_bump)
  have old: "sorted_wrt (\<lambda>a b. firstIndex (ks @ [k]) a < firstIndex (ks @ [k]) b) (map fst ?m)"
    using snoc.IH keys
    by (auto simp: firstIndex_append elim!: sorted_wrt_mono_rel[rotated])
  show ?case
  proof (cases "k \<in> set ks")
    case True
    then show ?thesis using old keys by (simp add: keys_bump)
  next
    case False
    then show ?thesis using old keys
      by (auto simp: keys_bump sorted_wrt_append firstIndex_append firstIndex_less)
  qed
qed


lemma insort_key_lex:
  assumes "sorted_wrt (\<lambda>a b. f a < f b \<or> (f a = f b \<and> P a b)) ys"
    and "\<forall>y \<in> set ys. P x y"
  shows "sorted_wrt (\<lambda>a b. f a < f b \<or> (f a = f b \<and> P a b)) (insort_key f x ys)"
  using assms
proof (induction ys)
  case Nil
  then show ?case by simp
next
  case (Cons y ys)
  show ?case
  proof (cases "f x \<le> f y")
    case True
    have "\<forall>z \<in> set ys. f y \<le> f z" using Cons.prems(1) by auto
    then have "\<forall>z \<in> set (y # ys). f x < f z \<or> (f x = f z \<and> P x z)"
      using True Cons.prems(2) by fastforce
    then show ?thesis using True Cons.prems(1) by simp
  next
    case False
    have "sorted_wrt (\<lambda>a b. f a < f b \<or> (f a = f b \<and> P a b)) (insort_key f x ys)"
      using Cons by simp
    then show ?thesis using False Cons.prems(1) by (auto simp: set_insort_key)
  qed
qed

lemma sort_key_lex:
  "sorted_wrt P xs \<Longrightarrow>
   sorted_wrt (\<lambda>a b. f a < f b \<or> (f a = f b \<and> P a b)) (sort_key f xs)"
proof (induction xs)
  case Nil
  then show ?case by simp
next
  case (Cons x xs)
  then show ?case by (simp add: sort_key_def[symmetric] insort_key_lex)
qed

lemma sortByCountDesc_lex:
  "sorted_wrt P xs \<Longrightarrow>
   sorted_wrt (\<lambda>a b. cnt a > cnt b \<or> (cnt a = cnt b \<and> P a b)) (sortByCountDesc cnt xs)"
  using sort_key_lex[of P xs "\<lambda>x. - int (cnt x)"] by (simp add: sortByCountDesc_def)

lemma sorted_wrt_take_any: "sorted_wrt R xs \<Longrightarrow> sorted_wrt R (take n xs)"
  by (metis append_take_drop_id sorted_wrt_append)

subsection \<open>The example of the specification\<close>

text \<open>
  Claim C4. For the two URLs \<open>https://a.com/2024/tech-news/hello-world\<close> and
  \<open>https://a.com/shop/tech\<close>, parsed as the platform parses them (host \<open>a.com\<close>, paths
  \<open>/2024/tech-news/hello-world\<close> and \<open>/shop/tech\<close>), keyword extraction returns exactly
  \<open>technews\<close>, \<open>helloworld\<close>, \<open>shop\<close> and \<open>tech\<close>, each with count 1 and in this order
  (\<open>2024\<close> is dropped as a number, the hyphens are removed), and domain extraction returns
  exactly \<open>a.com\<close> with count 2.
\<close>

theorem example_statistics:
  assumes "newURL ''https://a.com/2024/tech-news/hello-world'' =
             Inr \<lparr>hostname = ''a.com'', pathname = ''/2024/tech-news/hello-world''\<rparr>"
    and "newURL ''https://a.com/shop/tech'' =
             Inr \<lparr>hostname = ''a.com'', pathname = ''/shop/tech''\<rparr>"
  shows "extractKeywordsWithCount newURL
           [''https://a.com/2024/tech-news/hello-world'', ''https://a.com/shop/tech''] =
         [\<lparr>keyword = ''technews'', count = 1\<rparr>, \<lparr>keyword = ''helloworld'', count = 1\<rparr>,
          \<lparr>keyword = ''shop'', count = 1\<rparr>, \<lparr>keyword = ''tech'', count = 1\<rparr>] \<and>
         extractDomainStats newURL
           [''https://a.com/2024/tech-news/hello-world'', ''https://a.com/shop/tech''] =
         [\<lparr>ds_domain = ''a.com'', ds_count = 2\<rparr>]"
proof -
  have kw: "extractKeywordsWithCount newURL
           [''https://a.com/2024/tech-news/hello-world'', ''https://a.com/shop/tech''] =
         [\<lparr>keyword = ''technews'', count = 1\<rparr>, \<lparr>keyword = ''helloworld'', count = 1\<rparr>,
          \<lparr>keyword = ''shop'', count = 1\<rparr>, \<lparr>keyword = ''tech'', count = 1\<rparr>]"
    using assms
    by (simp add: extractKeywordsWithCount_def keywordCountsOf_def countUrl_def pathSegments_def
        countSegment_def keepSegment_def cleanSegment_def allDigits_def isDigit_def
        toLowerCase_def toLowerChar_def isUpper_def removeHyphens_def stoplist_def
        get_or_zero_def map_get_def sortByCountDesc_def)
  have dm: "extractDomainStats newURL
           [''https://a.com/2024/tech-news/hello-world'', ''https://a.com/shop/tech''] =
         [\<lparr>ds_domain = ''a.com'', ds_count = 2\<rparr>]"
    using assms
    by (simp add: extractDomainStats_def countDomain_def get_or_zero_def map_get_def
        sortByCountDesc_def)
  show ?thesis using kw dm by simp
qed

text \<open>The two hypotheses hold of the plain parser, and the statistics are as stated.\<close>

theorem example_statistics_witness:
  "plainHttpsURL ''https://a.com/2024/tech-news/hello-world'' =
     Inr \<lparr>hostname = ''a.com'', pathname = ''/2024/tech-news/hello-world''\<rparr> \<and>
   plainHttpsURL ''https://a.com/shop/tech'' =
     Inr \<lparr>hostname = ''a.com'', pathname = ''/shop/tech''\<rparr> \<and>
   extractKeywordsWithCount plainHttpsURL
           [''https://a.com/2024/tech-news/hello-world'', ''https://a.com/shop/tech''] =
         [\<lparr>keyword = ''technews'', count = 1\<rparr>, \<lparr>keyword = ''helloworld'', count = 1\<rparr>,
          \<lparr>keyword = ''shop'', count = 1\<rparr>, \<lparr>keyword = ''tech'', count = 1\<rparr>] \<and>
   extractDomainStats plainHttpsURL
           [''https://a.com/2024/tech-news/hello-world'', ''https://a.com/shop/tech''] =
         [\<lparr>ds_domain = ''a.com'', ds_count = 2\<rparr>]"
proof -
  have h1: "plainHttpsURL ''https://a.com/2024/tech-news/hello-world'' =
     Inr \<lparr>hostname = ''a.com'', pathname = ''/2024/tech-news/hello-world''\<rparr>"
    by (simp add: plainHttpsURL_def)
  have h2: "plainHttpsURL ''https://a.com/shop/tech'' =
     Inr \<lparr>hostname = ''a.com'', pathname = ''/shop/tech''\<rparr>"
    by (simp add: plainHttpsURL_def)
  show ?thesis using h1 h2 example_statistics[OF h1 h2] by simp
qed


subsection \<open>Ranking\<close>

text \<open>
  Claim C5. For every list of URLs the keyword statistics have at most 10 entries and are
  sorted by descending count, and of two entries with the same count the one whose
  keyword was seen first by the loops comes first (the sort is stable and has no second
  key).
\<close>

theorem keyword_ranking:
  "length (extractKeywordsWithCount newURL urls) \<le> 10 \<and>
   sorted_wrt (\<lambda>a b. count a > count b \<or>
        (count a = count b \<and>
         firstIndex (keywordsInOrder newURL urls) (keyword a)
           < firstIndex (keywordsInOrder newURL urls) (keyword b)))
     (extractKeywordsWithCount newURL urls)"
proof -
  let ?ks = "keywordsInOrder newURL urls"
  let ?entries = "map (\<lambda>(k, c). \<lparr>keyword = k, count = c\<rparr>) (keywordCountsOf newURL urls)"
  have "sorted_wrt (\<lambda>a b. firstIndex ?ks a < firstIndex ?ks b) (map fst (keywordCountsOf newURL urls))"
    by (simp only: keywordCountsOf_stream keys_in_first_seen_order)
  then have "sorted_wrt (\<lambda>a b. firstIndex ?ks (keyword a) < firstIndex ?ks (keyword b)) ?entries"
    by (simp add: sorted_wrt_map case_prod_beta)
  then have "sorted_wrt (\<lambda>a b. count a > count b \<or>
        (count a = count b \<and> firstIndex ?ks (keyword a) < firstIndex ?ks (keyword b)))
      (take 10 (sortByCountDesc count ?entries))"
    by (intro sorted_wrt_take_any sortByCountDesc_lex)
  then show ?thesis by (simp add: extractKeywordsWithCount_def)
qed


subsection \<open>URLs that do not parse\<close>

lemma foldl_skip:
  assumes "\<And>m x. \<not> P x \<Longrightarrow> f m x = m"
  shows "foldl f m (filter P xs) = foldl f m xs"
  using assms by (induction xs arbitrary: m) auto

text \<open>
  Claim C8. For every list of URLs, the keyword statistics and the domain statistics are
  those of the list without the URLs that fail to parse: such a URL adds nothing to
  either table. The failure is the \<open>Inl\<close> branch of the two loop bodies, which returns
  the table as it is, and both functions return their statistics on every input: nothing
  is raised.
\<close>

theorem unparseable_urls_ignored:
  "extractKeywordsWithCount newURL urls =
     extractKeywordsWithCount newURL (filter (parses newURL) urls) \<and>
   extractDomainStats newURL urls =
     extractDomainStats newURL (filter (parses newURL) urls)"
proof -
  have "foldl (countUrl newURL) [] (filter (parses newURL) urls) = foldl (countUrl newURL) [] urls"
    by (rule foldl_skip) (simp add: parses_def countUrl_def split: sum.splits)
  moreover
  have "foldl (countDomain newURL) [] (filter (parses newURL) urls)
        = foldl (countDomain newURL) [] urls"
    by (rule foldl_skip) (simp add: parses_def countDomain_def split: sum.splits)
  ultimately show ?thesis
    by (simp add: extractKeywordsWithCount_def extractDomainStats_def keywordCountsOf_def)
qed

subsection \<open>Entries are well formed\<close>

text \<open>
  Claim C10. For every list of URLs, every entry of the keyword statistics has a keyword
  that is lower-case (it is its own lower-case form and has no letter from \<open>A\<close> to \<open>Z\<close>),
  has no hyphen and is longer than 2 characters, and has a count of at least 1.
\<close>

theorem keyword_entries_well_formed:
  "\<forall>e \<in> set (extractKeywordsWithCount newURL urls).
     toLowerCase (keyword e) = keyword e \<and> \<not> list_ex isUpper (keyword e) \<and>
     CHR ''-'' \<notin> set (keyword e) \<and> length (keyword e) > 2 \<and> count e \<ge> 1"
proof
  fix e
  assume e: "e \<in> set (extractKeywordsWithCount newURL urls)"
  let ?ks = "keywordsInOrder newURL urls"
  have mem: "keyword e \<in> set ?ks" and cnt: "count e = count_list ?ks (keyword e)"
    using keyword_entry[OF e] by simp_all
  obtain segment where k: "keyword e = cleanSegment segment" and len: "length (keyword e) > 2"
    using keywordsInOrder_shape[OF mem] by blast
  have "count_list ?ks (keyword e) \<noteq> 0" using mem by (simp add: count_list_0_iff)
  then have "count e \<ge> 1" using cnt by simp
  then show "toLowerCase (keyword e) = keyword e \<and> \<not> list_ex isUpper (keyword e) \<and>
     CHR ''-'' \<notin> set (keyword e) \<and> length (keyword e) > 2 \<and> count e \<ge> 1"
    using cleanSegment_shape[of segment] k len by simp
qed

text \<open>
  The path \<open>/Tech-News/x/tech-news\<close> gives the one entry \<open>technews\<close> with count 2, and
  the theorem applies to it.
\<close>

theorem keyword_entries_well_formed_witness:
  "\<lparr>keyword = ''technews'', count = 2\<rparr>
     \<in> set (extractKeywordsWithCount plainHttpsURL [''https://a.com/Tech-News/x/tech-news'']) \<and>
   toLowerCase ''technews'' = ''technews'' \<and> \<not> list_ex isUpper ''technews'' \<and>
   CHR ''-'' \<notin> set ''technews'' \<and> length ''technews'' > 2 \<and> (2::nat) \<ge> 1"
proof -
  have "extractKeywordsWithCount plainHttpsURL [''https://a.com/Tech-News/x/tech-news'']
        = [\<lparr>keyword = ''technews'', count = 2\<rparr>]"
    by code_simp
  then have mem: "\<lparr>keyword = ''technews'', count = 2\<rparr>
     \<in> set (extractKeywordsWithCount plainHttpsURL [''https://a.com/Tech-News/x/tech-news''])"
    by simp
  show ?thesis
    using mem keyword_entries_well_formed[of plainHttpsURL
        "[''https://a.com/Tech-News/x/tech-news'']", THEN bspec, OF mem]
    by simp
qed

section \<open>Properties of the scheduled pass\<close>

subsection \<open>The calls of the loop and of the pass\<close>

lemma feedsChecked_append [simp]: "feedsChecked (xs @ ys) = feedsChecked xs @ feedsChecked ys"
  by (simp add: feedsChecked_def)

lemma storeWrites_append [simp]: "storeWrites (xs @ ys) = storeWrites xs @ storeWrites ys"
  by (simp add: storeWrites_def)

lemma notifierCalls_append [simp]: "notifierCalls (xs @ ys) = notifierCalls xs @ notifierCalls ys"
  by (simp add: notifierCalls_def)

lemma feedsChecked_simps [simp]:
  "feedsChecked [] = []"
  "feedsChecked (AddFeed u # tr) = u # feedsChecked tr"
  "feedsChecked (GetFeeds # tr) = feedsChecked tr"
  "feedsChecked (KvGet # tr) = feedsChecked tr"
  "feedsChecked (KvPut p # tr) = feedsChecked tr"
  "feedsChecked (GetSitemapContent d k # tr) = feedsChecked tr"
  "feedsChecked (UpdateNotification u us content # tr) = feedsChecked tr"
  "feedsChecked (KeywordsSummary us # tr) = feedsChecked tr"
  by (simp_all add: feedsChecked_def)

lemma storeWrites_simps [simp]:
  "storeWrites [] = []"
  "storeWrites (KvPut p # tr) = p # storeWrites tr"
  "storeWrites (AddFeed u # tr) = storeWrites tr"
  "storeWrites (GetFeeds # tr) = storeWrites tr"
  "storeWrites (KvGet # tr) = storeWrites tr"
  "storeWrites (GetSitemapContent d k # tr) = storeWrites tr"
  "storeWrites (UpdateNotification u us content # tr) = storeWrites tr"
  "storeWrites (KeywordsSummary us # tr) = storeWrites tr"
  by (simp_all add: storeWrites_def)

lemma fetchContent_calls:
  assumes "fetchContent c s u r = (x, s')"
  shows "feedsChecked (trace s') = feedsChecked (trace s) \<and>
         storeWrites (trace s') = storeWrites (trace s)"
  using assms by (auto simp: fetchContent_def Let_def split: if_splits sum.splits)

lemma checkFeedTry_calls:
  assumes "checkFeedTry c s u = (x, s')"
  shows "feedsChecked (trace s') = feedsChecked (trace s) @ [u] \<and>
         storeWrites (trace s') = storeWrites (trace s)"
  using assms
  by (auto simp: checkFeedTry_def Let_def split: sum.splits if_splits prod.splits
           dest!: fetchContent_calls)

text \<open>The body of the loop never throws: its catch completes.\<close>

lemma checkFeed_completes: "fst (checkFeed c s u) = Inr ()"
  by (simp add: checkFeed_def split: prod.splits sum.splits)

lemma checkFeed_calls:
  "feedsChecked (trace (snd (checkFeed c s u))) = feedsChecked (trace s) @ [u] \<and>
   storeWrites (trace (snd (checkFeed c s u))) = storeWrites (trace s)"
proof (cases "checkFeedTry c s u")
  case (Pair x s')
  then show ?thesis
    using checkFeedTry_calls[OF Pair] by (simp add: checkFeed_def split: sum.splits)
qed

lemma forOf_step:
  assumes "fst (body s x) = Inr ()"
  shows "forOf body s (x # xs) = forOf body (snd (body s x)) xs"
  using assms by (cases "body s x") (simp split: sum.splits)

lemma checkFeed_loop_calls:
  "fst (forOf (checkFeed c) s batch) = Inr () \<and>
   feedsChecked (trace (snd (forOf (checkFeed c) s batch))) = feedsChecked (trace s) @ batch \<and>
   storeWrites (trace (snd (forOf (checkFeed c) s batch))) = storeWrites (trace s)"
proof (induction batch arbitrary: s)
  case Nil
  show ?case by simp
next
  case (Cons u batch)
  show ?case
    using Cons.IH[of "snd (checkFeed c s u)"]
    by (simp add: forOf_step checkFeed_completes checkFeed_calls del: forOf.simps)
qed

lemma monitoringPass_calls:
  assumes "getFeeds c = Inr feeds" and "feeds \<noteq> []"
  shows "feedsChecked (monitoringPass B c) =
           js_slice feeds (readLastIndex c) (min (readLastIndex c + B) (int (length feeds)))"
    and "storeWrites (monitoringPass B c) =
           [\<lparr>lastIndex = (if min (readLastIndex c + B) (int (length feeds)) \<ge> int (length feeds)
                          then 0 else min (readLastIndex c + B) (int (length feeds))),
             lastUpdate = now c, totalFeeds = length feeds,
             processedInThisBatch =
               length (js_slice feeds (readLastIndex c)
                         (min (readLastIndex c + B) (int (length feeds))))\<rparr>]"
proof -
  let ?batch = "js_slice feeds (readLastIndex c) (min (readLastIndex c + B) (int (length feeds)))"
  let ?init = "\<lparr>trace = [GetFeeds, KvGet], allNewUrls = []\<rparr>"
  obtain s where run: "forOf (checkFeed c) ?init ?batch = (Inr (), s)"
    using checkFeed_loop_calls[of c ?init ?batch]
    by (cases "forOf (checkFeed c) ?init ?batch") simp
  have calls: "feedsChecked (trace s) = ?batch" "storeWrites (trace s) = []"
    using checkFeed_loop_calls[of c ?init ?batch] by (simp_all add: run)
  show "feedsChecked (monitoringPass B c) = ?batch"
    using assms calls by (simp add: monitoringPass_def Let_def run)
  show "storeWrites (monitoringPass B c) =
           [\<lparr>lastIndex = (if min (readLastIndex c + B) (int (length feeds)) \<ge> int (length feeds)
                          then 0 else min (readLastIndex c + B) (int (length feeds))),
             lastUpdate = now c, totalFeeds = length feeds,
             processedInThisBatch = length ?batch\<rparr>]"
    using assms calls by (simp add: monitoringPass_def Let_def run)
qed

lemma js_slice_inside:
  assumes "i \<le> length xs" and "int i \<le> e" and "e \<le> int (length xs)"
  shows "js_slice xs (int i) e = drop i (take (nat e) xs)"
proof -
  have "nat (e - int i) = nat e - i" using assms by linarith
  then show ?thesis using assms by (simp add: js_slice_def drop_take min_def)
qed

lemma js_slice_stale:
  assumes "int (length xs) \<le> start" and "int (length xs) \<le> fin"
  shows "js_slice xs start fin = []"
  using assms by (simp add: js_slice_def min_def)

text \<open>A check that throws: the try block throws, and the body completes all the same.\<close>

lemma checkFeed_throws:
  assumes "addFeed c u = Inl e"
  shows "checkFeedTry c s u = (Inl e, s\<lparr>trace := trace s @ [AddFeed u]\<rparr>)"
    and "checkFeed c s u = (Inr (), s\<lparr>trace := trace s @ [AddFeed u]\<rparr>)"
  using assms by (simp_all add: checkFeed_def checkFeedTry_def)

lemma readLastIndex_stored: "kvGet c = Inr (Some p) \<Longrightarrow> readLastIndex c = lastIndex p"
  by (simp add: readLastIndex_def)

subsection \<open>Selection of the batch\<close>

text \<open>
  Claim C2. For every feed list of length \<open>L > 0\<close>, every batch size \<open>B > 0\<close> and every
  progress record in the store whose \<open>lastIndex\<close> is a position \<open>i < L\<close>, a pass checks
  exactly the contiguous slice of the feeds from \<open>i\<close> up to \<open>min (i + B) L\<close>, and writes
  a progress record whose \<open>lastIndex\<close> is 0 if \<open>min (i + B) L\<close> has reached \<open>L\<close> and
  \<open>min (i + B) L\<close> otherwise. This holds of the pass with any batch size, and so of
  \<open>performScheduledMonitoring\<close>, which is the pass with \<open>B = 25\<close>.
\<close>

theorem batch_selection:
  assumes "getFeeds c = Inr feeds" and "feeds \<noteq> []" and "0 < B"
    and "kvGet c = Inr (Some stored)" and "lastIndex stored = int i" and "i < length feeds"
  shows "feedsChecked (monitoringPass B c) = drop i (take (min (i + nat B) (length feeds)) feeds) \<and>
         storeWrites (monitoringPass B c) =
           [\<lparr>lastIndex = (if min (i + nat B) (length feeds) \<ge> length feeds then 0
                          else int (min (i + nat B) (length feeds))),
             lastUpdate = now c, totalFeeds = length feeds,
             processedInThisBatch = min (i + nat B) (length feeds) - i\<rparr>] \<and>
         feedsChecked (performScheduledMonitoring (Some c)) =
           drop i (take (min (i + 25) (length feeds)) feeds) \<and>
         storeWrites (performScheduledMonitoring (Some c)) =
           [\<lparr>lastIndex = (if min (i + 25) (length feeds) \<ge> length feeds then 0
                          else int (min (i + 25) (length feeds))),
             lastUpdate = now c, totalFeeds = length feeds,
             processedInThisBatch = min (i + 25) (length feeds) - i\<rparr>]"
proof -
  have stored: "readLastIndex c = int i"
    using assms(4,5) by (simp add: readLastIndex_def)
  have general: "feedsChecked (monitoringPass b c) =
           drop i (take (min (i + nat b) (length feeds)) feeds) \<and>
         storeWrites (monitoringPass b c) =
           [\<lparr>lastIndex = (if min (i + nat b) (length feeds) \<ge> length feeds then 0
                          else int (min (i + nat b) (length feeds))),
             lastUpdate = now c, totalFeeds = length feeds,
             processedInThisBatch = min (i + nat b) (length feeds) - i\<rparr>]"
    if b: "0 < b" for b
  proof -
    let ?e = "min (int i + b) (int (length feeds))"
    have e: "?e = int (min (i + nat b) (length feeds))" using b by (auto simp: min_def)
    have "int i \<le> ?e" "?e \<le> int (length feeds)" using b assms(6) by simp_all
    then have slice:
      "js_slice feeds (int i) ?e = drop i (take (min (i + nat b) (length feeds)) feeds)"
      using assms(6) js_slice_inside[of i feeds ?e] by (simp add: e)
    have len: "length (drop i (take (min (i + nat b) (length feeds)) feeds))
               = min (i + nat b) (length feeds) - i"
      by simp
    show ?thesis
      using monitoringPass_calls[OF assms(1,2), of b] slice len e
      by (simp add: stored)
  qed
  have fixed: "performScheduledMonitoring (Some c) = monitoringPass 25 c"
    by (simp add: performScheduledMonitoring_def BATCH_SIZE_def)
  show ?thesis
    using general[OF assms(3)] general[of 25] by (simp add: fixed)
qed

text \<open>
  Thirty feeds and a stored record with \<open>lastIndex = 3\<close>: the scheduled pass checks the
  25 feeds from position 3 up to 28, the first of them being \<open>sitemap-3\<close>, and writes 28.
\<close>

theorem batch_selection_witness:
  "getFeeds (exampleCollab thirtyFeeds 3) = Inr thirtyFeeds \<and> thirtyFeeds \<noteq> [] \<and>
   (0::int) < BATCH_SIZE \<and>
   kvGet (exampleCollab thirtyFeeds 3) =
     Inr (Some \<lparr>lastIndex = 3, lastUpdate = ''2026-01-01T00:00:00.000Z'',
                 totalFeeds = 30, processedInThisBatch = 25\<rparr>) \<and>
   (3::nat) < length thirtyFeeds \<and>
   feedsChecked (performScheduledMonitoring (Some (exampleCollab thirtyFeeds 3))) =
     drop 3 (take 28 thirtyFeeds) \<and>
   hd (drop 3 (take 28 thirtyFeeds)) = ''https://b.org/sitemap-3.xml'' \<and>
   length (drop 3 (take 28 thirtyFeeds)) = 25 \<and>
   storeWrites (performScheduledMonitoring (Some (exampleCollab thirtyFeeds 3))) =
     [\<lparr>lastIndex = 28, lastUpdate = ''2026-01-02T00:00:00.000Z'', totalFeeds = 30,
       processedInThisBatch = 25\<rparr>]"
proof -
  let ?stored = "\<lparr>lastIndex = 3, lastUpdate = ''2026-01-01T00:00:00.000Z'',
                   totalFeeds = 30, processedInThisBatch = 25\<rparr>"
  have len: "length thirtyFeeds = 30" by (simp add: thirtyFeeds_def)
  have h1: "getFeeds (exampleCollab thirtyFeeds 3) = Inr thirtyFeeds"
    by (simp add: exampleCollab_def)
  have h2: "thirtyFeeds \<noteq> []" using len by auto
  have h3: "(0::int) < BATCH_SIZE" by (simp add: BATCH_SIZE_def)
  have h4: "kvGet (exampleCollab thirtyFeeds 3) = Inr (Some ?stored)"
    by (simp add: exampleCollab_def)
  have h5: "lastIndex ?stored = int 3" by simp
  have h6: "(3::nat) < length thirtyFeeds" by (simp add: len)
  have first: "hd (drop 3 (take 28 thirtyFeeds)) = ''https://b.org/sitemap-3.xml''"
    by code_simp
  have n: "length (drop 3 (take 28 thirtyFeeds)) = 25" by (simp add: len)
  note t = batch_selection[OF h1 h2 h3 h4 h5 h6]
  have a: "feedsChecked (performScheduledMonitoring (Some (exampleCollab thirtyFeeds 3))) =
     drop 3 (take 28 thirtyFeeds)"
    using t by (simp add: len)
  have b: "storeWrites (performScheduledMonitoring (Some (exampleCollab thirtyFeeds 3))) =
     [\<lparr>lastIndex = 28, lastUpdate = ''2026-01-02T00:00:00.000Z'', totalFeeds = 30,
       processedInThisBatch = 25\<rparr>]"
    using t by (simp add: len exampleCollab_def)
  show ?thesis using h1 h2 h3 h4 h6 first n a b by blast
qed

subsection \<open>A stale position\<close>

text \<open>
  Claim C1 says that with a stored position at or beyond the length of the feed list the
  pass starts again at 0 and checks a slice that starts there. It does not: with three
  feeds and the stored position 25, the pass checks no feed at all, while the slice
  from 0 is the whole list.
\<close>

theorem stale_cursor_counterexample:
  "getFeeds (exampleCollab exampleFeeds 25) = Inr exampleFeeds \<and>
   0 < length exampleFeeds \<and>
   int (length exampleFeeds) \<le> readLastIndex (exampleCollab exampleFeeds 25) \<and>
   feedsChecked (performScheduledMonitoring (Some (exampleCollab exampleFeeds 25))) = [] \<and>
   js_slice exampleFeeds 0 (min (0 + BATCH_SIZE) (int (length exampleFeeds))) = exampleFeeds"
  by code_simp

text \<open>
  Claim C1, amended. For every feed list of length \<open>L > 0\<close> and every stored position that
  is at least \<open>L\<close>, the pass checks no feed and calls no notifier: it reads the store and
  writes the progress record with \<open>lastIndex = 0\<close> and \<open>processedInThisBatch = 0\<close>, so that
  the position is 0 again for the pass after it.
\<close>

theorem stale_cursor_pass:
  assumes "getFeeds c = Inr feeds" and "feeds \<noteq> []"
    and "int (length feeds) \<le> readLastIndex c"
  shows "performScheduledMonitoring (Some c) =
           [GetFeeds, KvGet,
            KvPut \<lparr>lastIndex = 0, lastUpdate = now c, totalFeeds = length feeds,
                   processedInThisBatch = 0\<rparr>]"
proof -
  have "js_slice feeds (readLastIndex c) (min (readLastIndex c + BATCH_SIZE) (int (length feeds))) = []"
    using assms(3) by (intro js_slice_stale) (simp_all add: BATCH_SIZE_def)
  then show ?thesis
    using assms by (simp add: performScheduledMonitoring_def monitoringPass_def Let_def BATCH_SIZE_def)
qed

text \<open>Three feeds and the stored position 25.\<close>

theorem stale_cursor_pass_witness:
  "getFeeds (exampleCollab exampleFeeds 25) = Inr exampleFeeds \<and> exampleFeeds \<noteq> [] \<and>
   int (length exampleFeeds) \<le> readLastIndex (exampleCollab exampleFeeds 25) \<and>
   performScheduledMonitoring (Some (exampleCollab exampleFeeds 25)) =
     [GetFeeds, KvGet,
      KvPut \<lparr>lastIndex = 0, lastUpdate = ''2026-01-02T00:00:00.000Z'', totalFeeds = 3,
             processedInThisBatch = 0\<rparr>]"
proof -
  have h1: "getFeeds (exampleCollab exampleFeeds 25) = Inr exampleFeeds"
    by (simp add: exampleCollab_def)
  have h2: "exampleFeeds \<noteq> []" by (simp add: exampleFeeds_def)
  have h3: "int (length exampleFeeds) \<le> readLastIndex (exampleCollab exampleFeeds 25)"
    by (simp add: exampleCollab_def readLastIndex_def exampleFeeds_def)
  show ?thesis
    using h1 h2 h3 stale_cursor_pass[OF h1 h2 h3]
    by (simp add: exampleFeeds_def exampleCollab_def)
qed

subsection \<open>No feeds\<close>

text \<open>
  Claim C7. When the feed list is empty, the pass asks for the feeds and returns: it does
  not write the store (nor read it) and calls the notifier in no form.
\<close>

theorem empty_feed_list_pass:
  assumes "getFeeds c = Inr []"
  shows "performScheduledMonitoring (Some c) = [GetFeeds] \<and>
         storeWrites (performScheduledMonitoring (Some c)) = [] \<and>
         notifierCalls (performScheduledMonitoring (Some c)) = []"
  using assms
  by (simp add: performScheduledMonitoring_def monitoringPass_def notifierCalls_def)

text \<open>The example collaborators with an empty feed list.\<close>

theorem empty_feed_list_pass_witness:
  "getFeeds (exampleCollab [] 0) = Inr [] \<and>
   performScheduledMonitoring (Some (exampleCollab [] 0)) = [GetFeeds] \<and>
   storeWrites (performScheduledMonitoring (Some (exampleCollab [] 0))) = [] \<and>
   notifierCalls (performScheduledMonitoring (Some (exampleCollab [] 0))) = []"
proof -
  have h: "getFeeds (exampleCollab [] 0) = Inr []" by (simp add: exampleCollab_def)
  show ?thesis using h empty_feed_list_pass[OF h] by blast
qed

subsection \<open>The position that is written\<close>

text \<open>
  Claim C9. For every feed list of length \<open>L > 0\<close>, the pass writes exactly one progress
  record; its \<open>lastIndex\<close> is 0 or less than \<open>L\<close>, and it is less than the \<open>totalFeeds\<close> of
  the same record, which is \<open>L\<close>. (It is not negative either, unless the position read
  from the store was.)
\<close>

theorem written_cursor_below_length:
  assumes "getFeeds c = Inr feeds" and "feeds \<noteq> []"
  shows "\<exists>p. storeWrites (performScheduledMonitoring (Some c)) = [p] \<and>
             (lastIndex p = 0 \<or> lastIndex p < int (length feeds)) \<and>
             lastIndex p < int (totalFeeds p) \<and> totalFeeds p = length feeds \<and>
             (0 \<le> readLastIndex c \<longrightarrow> 0 \<le> lastIndex p)"
  using assms monitoringPass_calls(2)[OF assms, of BATCH_SIZE]
  by (simp add: performScheduledMonitoring_def BATCH_SIZE_def)

text \<open>Thirty feeds and the stored position 0: 25 is written, below 30.\<close>

theorem written_cursor_below_length_witness:
  "getFeeds (exampleCollab (replicate 30 ''https://b.org/sitemap.xml'') 0)
     = Inr (replicate 30 ''https://b.org/sitemap.xml'') \<and>
   replicate 30 ''https://b.org/sitemap.xml'' \<noteq> [] \<and>
   storeWrites (performScheduledMonitoring
       (Some (exampleCollab (replicate 30 ''https://b.org/sitemap.xml'') 0))) =
     [\<lparr>lastIndex = 25, lastUpdate = ''2026-01-02T00:00:00.000Z'', totalFeeds = 30,
       processedInThisBatch = 25\<rparr>] \<and>
   (25::int) < int (length (replicate 30 ''https://b.org/sitemap.xml''))"
proof -
  let ?feeds = "replicate 30 ''https://b.org/sitemap.xml''"
  have h1: "getFeeds (exampleCollab ?feeds 0) = Inr ?feeds"
    by (simp add: exampleCollab_def)
  have h2: "?feeds \<noteq> []" by simp
  have ev: "storeWrites (performScheduledMonitoring (Some (exampleCollab ?feeds 0))) =
     [\<lparr>lastIndex = 25, lastUpdate = ''2026-01-02T00:00:00.000Z'', totalFeeds = 30,
       processedInThisBatch = 25\<rparr>]"
    using monitoringPass_calls(2)[OF h1 h2, of BATCH_SIZE]
    by (simp add: performScheduledMonitoring_def BATCH_SIZE_def exampleCollab_def
        readLastIndex_def js_slice_def)
  show ?thesis
    using h1 h2 ev written_cursor_below_length[OF h1 h2]
    by simp
qed

section \<open>Properties of the news command\<close>

subsection \<open>The downloads of the loop\<close>

lemma downloadsOf_append [simp]: "downloadsOf (xs @ ys) = downloadsOf xs @ downloadsOf ys"
  by (simp add: downloadsOf_def)

lemma downloadsOf_downloads [simp]: "downloadsOf (map (\<lambda>u. DownloadSitemap u True) us) = us"
  by (induction us) (simp_all add: downloadsOf_def)

lemma downloadsOf_simps [simp]:
  "downloadsOf [] = []"
  "downloadsOf (GetFeeds # tr) = downloadsOf tr"
  "downloadsOf (SendMessage chat msg # tr) = downloadsOf tr"
  by (simp_all add: downloadsOf_def)

lemma downloadsOf_report [simp]: "downloadsOf (sendUnifiedReport c r us p e t) = []"
  by (simp add: sendUnifiedReport_def split: option.splits)

lemma newsTry_downloaded:
  assumes "newsTry c s u = (x, s')"
  shows "downloaded s' = downloaded s @ [u]"
  using assms
  by (auto simp: newsTry_def addNewUrls_def Let_def split: sum.splits option.splits if_splits)

text \<open>The body of the loop never throws: its catch completes.\<close>

lemma newsStep_completes: "fst (newsStep c s u) = Inr ()"
  by (simp add: newsStep_def split: prod.splits sum.splits)

lemma newsStep_downloaded: "downloaded (snd (newsStep c s u)) = downloaded s @ [u]"
proof (cases "newsTry c s u")
  case (Pair x s')
  then show ?thesis
    using newsTry_downloaded[OF Pair] by (simp add: newsStep_def split: sum.splits)
qed

text \<open>A download that throws is counted, and the body completes.\<close>

lemma newsStep_throws:
  assumes "downloadSitemap c u True = Inl e"
  shows "newsStep c s u =
           (Inr (), s\<lparr>errorCount := errorCount s + 1, downloaded := downloaded s @ [u]\<rparr>)"
  using assms by (simp add: newsStep_def newsTry_def)

lemma newsLoop_downloaded:
  "fst (forOf (newsStep c) s feeds) = Inr () \<and>
   downloaded (snd (forOf (newsStep c) s feeds)) = downloaded s @ feeds"
proof (induction feeds arbitrary: s)
  case Nil
  show ?case by simp
next
  case (Cons u feeds)
  show ?case
    using Cons.IH[of "snd (newsStep c s u)"]
    by (simp add: forOf_step newsStep_completes newsStep_downloaded del: forOf.simps)
qed

lemma checkAllFeeds_downloaded:
  "fst (checkAllFeeds c feeds) = Inr () \<and> downloaded (snd (checkAllFeeds c feeds)) = feeds"
  using newsLoop_downloaded[of c newsInit feeds] by (simp add: checkAllFeeds_def newsInit_def)

subsection \<open>A failing feed does not stop either loop\<close>

text \<open>
  Claim C6. Whatever the collaborators throw while a feed is checked, it is caught inside
  the body of the loop and the loop goes on with the next feed: the loop of the pass
  completes on every batch from every state; a scheduled pass over a feed list that is
  not empty checks every feed of its slice and reaches the write of the progress record;
  and the loop of the news command completes, so that the command (once its first
  message is sent) downloads every feed and reaches the sending of the report. The
  collaborators are arbitrary, so each check may throw.
\<close>

theorem feed_failure_is_isolated:
  assumes "getFeeds c = Inr feeds" and "feeds \<noteq> []"
    and "sendMessage c chatId MSG_START = Inr ok"
  shows "fst (forOf (checkFeed c) s batch) = Inr () \<and>
         feedsChecked (performScheduledMonitoring (Some c)) =
           js_slice feeds (readLastIndex c)
             (min (readLastIndex c + BATCH_SIZE) (int (length feeds))) \<and>
         length (storeWrites (performScheduledMonitoring (Some c))) = 1 \<and>
         fst (checkAllFeeds c feeds) = Inr () \<and>
         downloadsOf (handleNewsCommand c chatId) = feeds \<and>
         handleNewsCommand c chatId =
           [GetFeeds, SendMessage chatId MSG_START] @
           map (\<lambda>u. DownloadSitemap u True) feeds @
           sendUnifiedReport c (domainResults (snd (checkAllFeeds c feeds)))
             (newsNewUrls (snd (checkAllFeeds c feeds)))
             (processedCount (snd (checkAllFeeds c feeds)))
             (errorCount (snd (checkAllFeeds c feeds))) (Some chatId)"
proof -
  have loop: "fst (forOf (checkFeed c) s batch) = Inr ()"
    using checkFeed_loop_calls[of c s batch] by simp
  have pass: "feedsChecked (performScheduledMonitoring (Some c)) =
           js_slice feeds (readLastIndex c)
             (min (readLastIndex c + BATCH_SIZE) (int (length feeds)))"
    and wr: "length (storeWrites (performScheduledMonitoring (Some c))) = 1"
    using monitoringPass_calls[OF assms(1,2), of BATCH_SIZE]
    by (simp_all add: performScheduledMonitoring_def)
  obtain n where run: "checkAllFeeds c feeds = (Inr (), n)" and dl: "downloaded n = feeds"
    using checkAllFeeds_downloaded[of c feeds] by (cases "checkAllFeeds c feeds") simp
  have tr: "handleNewsCommand c chatId =
           [GetFeeds, SendMessage chatId MSG_START] @
           map (\<lambda>u. DownloadSitemap u True) feeds @
           sendUnifiedReport c (domainResults (snd (checkAllFeeds c feeds)))
             (newsNewUrls (snd (checkAllFeeds c feeds)))
             (processedCount (snd (checkAllFeeds c feeds)))
             (errorCount (snd (checkAllFeeds c feeds))) (Some chatId)"
    using assms by (simp add: handleNewsCommand_def run dl)
  have news: "downloadsOf (handleNewsCommand c chatId) = feeds"
    by (simp add: tr)
  show ?thesis using loop pass wr news tr run by simp
qed

text \<open>
  With the example collaborators the check of the first feed throws, in both loops, and
  the two feeds after it are checked all the same.
\<close>

theorem feed_failure_is_isolated_witness:
  "getFeeds (exampleCollab exampleFeeds 0) = Inr exampleFeeds \<and> exampleFeeds \<noteq> [] \<and>
   sendMessage (exampleCollab exampleFeeds 0) ''42'' MSG_START = Inr () \<and>
   addFeed (exampleCollab exampleFeeds 0) (hd exampleFeeds) = Inl (Error ''fetch failed'') \<and>
   downloadSitemap (exampleCollab exampleFeeds 0) (hd exampleFeeds) True
     = Inl (Error ''fetch failed'') \<and>
   feedsChecked (performScheduledMonitoring (Some (exampleCollab exampleFeeds 0))) = exampleFeeds \<and>
   length (storeWrites (performScheduledMonitoring (Some (exampleCollab exampleFeeds 0)))) = 1 \<and>
   fst (checkAllFeeds (exampleCollab exampleFeeds 0) exampleFeeds) = Inr () \<and>
   downloadsOf (handleNewsCommand (exampleCollab exampleFeeds 0) ''42'') = exampleFeeds"
proof -
  have h1: "getFeeds (exampleCollab exampleFeeds 0) = Inr exampleFeeds"
    by (simp add: exampleCollab_def)
  have h2: "exampleFeeds \<noteq> []" by (simp add: exampleFeeds_def)
  have h3: "sendMessage (exampleCollab exampleFeeds 0) ''42'' MSG_START = Inr ()"
    by (simp add: exampleCollab_def)
  have h4: "addFeed (exampleCollab exampleFeeds 0) (hd exampleFeeds) = Inl (Error ''fetch failed'')"
    and h5: "downloadSitemap (exampleCollab exampleFeeds 0) (hd exampleFeeds) True
              = Inl (Error ''fetch failed'')"
    by (simp_all add: exampleCollab_def exampleResult_def exampleFeeds_def)
  have h6: "js_slice exampleFeeds (readLastIndex (exampleCollab exampleFeeds 0))
             (min (readLastIndex (exampleCollab exampleFeeds 0) + BATCH_SIZE)
                (int (length exampleFeeds))) = exampleFeeds"
    by (simp add: exampleCollab_def readLastIndex_def exampleFeeds_def js_slice_def BATCH_SIZE_def)
  note t = feed_failure_is_isolated[OF h1 h2 h3]
  have a: "feedsChecked (performScheduledMonitoring (Some (exampleCollab exampleFeeds 0)))
           = exampleFeeds"
    using t h6 by simp
  have b: "length (storeWrites (performScheduledMonitoring (Some (exampleCollab exampleFeeds 0)))) = 1"
    using t by simp
  have n: "fst (checkAllFeeds (exampleCollab exampleFeeds 0) exampleFeeds) = Inr ()"
    using t by simp
  have d: "downloadsOf (handleNewsCommand (exampleCollab exampleFeeds 0) ''42'') = exampleFeeds"
    using t by simp
  show ?thesis using h1 h2 h3 h4 h5 a b n d by blast
qed

subsection \<open>The breakdown of a check that found nothing new\<close>

text \<open>
  When domains are registered and none of them has a new URL, the breakdown is the empty
  string: line 192 tests the size of the map, and lines 196 to 198 then drop every entry.
\<close>

lemma breakdown_silent:
  assumes "results \<noteq> []" and "\<forall>d \<in> snd ` set results. dr_totalNew d = 0"
  shows "breakdownSection results = []"
proof -
  have "filter (\<lambda>d. dr_totalNew d > 0) (map snd results) = []"
    using assms(2) by (auto simp: filter_empty_conv)
  then show ?thesis using assms(1) by (simp add: breakdownSection_def sortByCountDesc_def)
qed

text \<open>
  Claim C3 says that the breakdown of a report states that there is nothing new when a
  feed was checked with success and no domain has a new URL. On one feed that is checked
  with success and has no new URL the code does otherwise: the map has the entry of the
  domain with \<open>totalNew = 0\<close>, the breakdown is the empty string, and in the message that
  is sent the heading of the keywords follows the summary line at once; that nothing is
  new is said under the keywords only.
\<close>

theorem quiet_check_breakdown_is_empty:
  "checkAllFeeds (exampleCollab [''https://b.org/sitemap.xml''] 0) [''https://b.org/sitemap.xml''] =
     (Inr (),
      \<lparr>domainResults = [(''b.org'', \<lparr>dr_domain = ''b.org'', dr_newUrls = [], dr_totalNew = 0\<rparr>)],
       newsNewUrls = [], processedCount = 1, errorCount = 0,
       downloaded = [''https://b.org/sitemap.xml'']\<rparr>) \<and>
   breakdownSection [(''b.org'', \<lparr>dr_domain = ''b.org'', dr_newUrls = [], dr_totalNew = 0\<rparr>)] = [] \<and>
   handleNewsCommand (exampleCollab [''https://b.org/sitemap.xml''] 0) ''42'' =
     [GetFeeds,
      SendMessage ''42'' MSG_START,
      DownloadSitemap ''https://b.org/sitemap.xml'' True,
      SendMessage ''42''
        (REPORT_TITLE @ REPORT_DATE @ ''2026/01/02 08:00:00'' @ [CHR 0x0A] @ REPORT_RULE @
         SUMMARY_HEAD @ SUMMARY_DONE @ ''1'' @ SUMMARY_SITEMAPS @ [CHR 0x0A, CHR 0x0A] @
         KEYWORDS_HEAD @ NOTHING_NEW_THIS_CHECK @
         FOOT_RULE @ TOTAL_NEW @ ''0'' @ TOTAL_LINKS)]"
  by code_simp

end
